theory Spec2Isabelle
  imports Complex_Main "HOL-Library.AList"
begin

section \<open>Hex Zone Control: the rules engine of game.js\<close>

text \<open>
  The development follows \<^verbatim>\<open>src/game.js\<close> function by function. Coordinates are
  JavaScript numbers holding integers and are modelled by \<^typ>\<open>int\<close>. The string key
  \<^verbatim>\<open>hexKey(q, r) = `${q},${r}`\<close> is an injective encoding of the pair and is read back by
  \<^verbatim>\<open>key.split(',').map(Number)\<close>; the model uses the pair itself as the key. A JavaScript
  \<^verbatim>\<open>Map\<close> iterates in insertion order and \<^verbatim>\<open>set\<close> on a present key keeps its place: it is
  an association list with \<^const>\<open>AList.update\<close>. A \<^verbatim>\<open>Set\<close> is a list without repetition
  in insertion order.
\<close>

subsection \<open>Constants and players\<close>

definition GRID_SIZE :: int where
  "GRID_SIZE = 8"

definition TILES_PER_PLAYER :: int where
  "TILES_PER_PLAYER = 20"

datatype player = WHITE | BLACK

text \<open>The expression \<^verbatim>\<open>p === PLAYER.WHITE ? PLAYER.BLACK : PLAYER.WHITE\<close>.\<close>

definition opponent :: "player \<Rightarrow> player" where
  "opponent p = (if p = WHITE then BLACK else WHITE)"

type_synonym hex = "int \<times> int"

text \<open>A flip \<^verbatim>\<open>{q, r, distance}\<close>: the coordinate and its rank.\<close>

type_synonym flip = "hex \<times> nat"

subsection \<open>Hex coordinate math\<close>

text \<open>
  \<^verbatim>\<open>Math.round\<close> rounds to the nearest integer, halves towards plus infinity. The
  fractional coordinates of \<^verbatim>\<open>hexRound\<close> are modelled by exact reals.
\<close>

definition js_round :: "real \<Rightarrow> int" where
  "js_round x = \<lfloor>x + 1 / 2\<rfloor>"

definition hexRound :: "real \<Rightarrow> real \<Rightarrow> int \<times> int" where
  "hexRound q r =
     (let s = - q - r;
          rq = js_round q;
          rr = js_round r;
          rs = js_round s;
          qDiff = \<bar>of_int rq - q\<bar>;
          rDiff = \<bar>of_int rr - r\<bar>;
          sDiff = \<bar>of_int rs - s\<bar>
      in if qDiff > rDiff \<and> qDiff > sDiff then (- rr - rs, rr)
         else if rDiff > sDiff then (rq, - rq - rs)
         else (rq, rr))"

definition isValidHex :: "int \<Rightarrow> int \<Rightarrow> bool" where
  "isValidHex q r =
     (let s = - q - r
      in \<bar>q\<bar> < GRID_SIZE \<and> \<bar>r\<bar> < GRID_SIZE \<and> \<bar>s\<bar> < GRID_SIZE)"

text \<open>
  The six entries of the \<^verbatim>\<open>directions\<close> array literal, in the order of the source;
  \<open>dq\<close> and \<open>dr\<close> are the fields \<^verbatim>\<open>q\<close> and \<^verbatim>\<open>r\<close> of an entry.
\<close>

datatype direction = East | Northeast | Northwest | West | Southwest | Southeast

fun dq :: "direction \<Rightarrow> int" where
  "dq East = 1"
| "dq Northeast = 1"
| "dq Northwest = 0"
| "dq West = - 1"
| "dq Southwest = - 1"
| "dq Southeast = 0"

fun dr :: "direction \<Rightarrow> int" where
  "dr East = 0"
| "dr Northeast = - 1"
| "dr Northwest = - 1"
| "dr West = 0"
| "dr Southwest = 1"
| "dr Southeast = 1"

definition directions :: "direction list" where
  "directions = [East, Northeast, Northwest, West, Southwest, Southeast]"

definition getSurroundingHexes :: "int \<Rightarrow> int \<Rightarrow> hex list" where
  "getSurroundingHexes q r = map (\<lambda>d. (q + dq d, r + dr d)) directions"

definition getNeighbors :: "int \<Rightarrow> int \<Rightarrow> hex list" where
  "getNeighbors q r =
     filter (\<lambda>h. isValidHex (fst h) (snd h)) (map (\<lambda>d. (q + dq d, r + dr d)) directions)"

definition getZOCHexes :: "int \<Rightarrow> int \<Rightarrow> hex list" where
  "getZOCHexes q r = (q, r) # getSurroundingHexes q r"

subsection \<open>Board queries\<close>

text \<open>\<^verbatim>\<open>Set.prototype.add\<close>: a present element stays where it is.\<close>

definition set_add :: "'a list \<Rightarrow> 'a \<Rightarrow> 'a list" where
  "set_add xs x = (if x \<in> set xs then xs else xs @ [x])"

definition getPlayerTiles :: "(hex \<times> player) list \<Rightarrow> player \<Rightarrow> hex list" where
  "getPlayerTiles tiles p = map fst (filter (\<lambda>e. snd e = p) tiles)"

definition calculateZOC :: "(hex \<times> player) list \<Rightarrow> player \<Rightarrow> hex list" where
  "calculateZOC tiles p =
     fold (\<lambda>tile zoc.
             fold (\<lambda>h z. if isValidHex (fst h) (snd h) then set_add z h else z)
                  (getZOCHexes (fst tile) (snd tile)) zoc)
          (getPlayerTiles tiles p) []"

text \<open>The \<^verbatim>\<open>for\<close> loop of \<^verbatim>\<open>isTileSurrounded\<close> with its \<^verbatim>\<open>continue\<close> and early \<^verbatim>\<open>return\<close>.\<close>

fun surroundedLoop :: "hex list \<Rightarrow> hex list \<Rightarrow> bool" where
  "surroundedLoop [] enemyZOC = True"
| "surroundedLoop (h # hs) enemyZOC =
     (if \<not> isValidHex (fst h) (snd h) then surroundedLoop hs enemyZOC
      else if h \<notin> set enemyZOC then False
      else surroundedLoop hs enemyZOC)"

definition isTileSurrounded :: "int \<Rightarrow> int \<Rightarrow> hex list \<Rightarrow> bool" where
  "isTileSurrounded q r enemyZOC = surroundedLoop (getSurroundingHexes q r) enemyZOC"

subsection \<open>Line scans\<close>

text \<open>
  One pass of the \<^verbatim>\<open>while (isValidHex(q, r))\<close> loop of \<^verbatim>\<open>getOthelloFlips\<close> for one
  direction. The result is what the pass pushes onto \<^verbatim>\<open>allFlips\<close>: the collected
  \<^verbatim>\<open>lineFlips\<close> when the scan meets a tile of the current player, nothing when it meets an
  empty cell or leaves the board.
\<close>

function othelloLine ::
  "(hex \<times> player) list \<Rightarrow> player \<Rightarrow> direction \<Rightarrow> int \<Rightarrow> int \<Rightarrow> nat \<Rightarrow> flip list \<Rightarrow> flip list"
where
  "othelloLine tiles currentPlayer dir q r distance lineFlips =
     (if isValidHex q r then
        (if map_of tiles (q, r) = Some (opponent currentPlayer) then
           othelloLine tiles currentPlayer dir (q + dq dir) (r + dr dir) (distance + 1)
             (lineFlips @ [((q, r), distance)])
         else if map_of tiles (q, r) = Some currentPlayer then lineFlips
         else [])
      else [])"
  by pat_completeness auto
termination
proof (relation "measure (\<lambda>(tiles, currentPlayer, dir, q, r, distance, lineFlips).
          nat (16 - (dq dir * q + dr dir * r + (- dq dir - dr dir) * (- q - r))))")
  show "wf (measure (\<lambda>(tiles, currentPlayer, dir, q, r, distance, lineFlips).
          nat (16 - (dq dir * q + dr dir * r + (- dq dir - dr dir) * (- q - r)))))"
    by simp
next
  fix tiles :: "(hex \<times> player) list" and currentPlayer :: player and dir :: direction
    and q r :: int and distance :: nat and lineFlips :: "flip list"
  assume "isValidHex q r"
  then show "((tiles, currentPlayer, dir, q + dq dir, r + dr dir, distance + 1,
               lineFlips @ [((q, r), distance)]),
              (tiles, currentPlayer, dir, q, r, distance, lineFlips))
             \<in> measure (\<lambda>(tiles, currentPlayer, dir, q, r, distance, lineFlips).
                 nat (16 - (dq dir * q + dr dir * r + (- dq dir - dr dir) * (- q - r))))"
    by (cases dir) (auto simp: isValidHex_def GRID_SIZE_def Let_def)
qed

definition getOthelloFlips :: "(hex \<times> player) list \<Rightarrow> int \<Rightarrow> int \<Rightarrow> player \<Rightarrow> flip list" where
  "getOthelloFlips tiles placedQ placedR currentPlayer =
     fold (\<lambda>dir allFlips.
             allFlips @ othelloLine tiles currentPlayer dir (placedQ + dq dir) (placedR + dr dir) 1 [])
          directions []"

text \<open>The \<^verbatim>\<open>while\<close> loop of \<^verbatim>\<open>getTilesInStraightLines\<close> for one direction.\<close>

function straightLine ::
  "(hex \<times> player) list \<Rightarrow> player \<Rightarrow> direction \<Rightarrow> int \<Rightarrow> int \<Rightarrow> hex list \<Rightarrow> hex list"
where
  "straightLine tiles p dir q r tilesToFlip =
     (if isValidHex q r then
        (if map_of tiles (q, r) = Some p then
           straightLine tiles p dir (q + dq dir) (r + dr dir) (tilesToFlip @ [(q, r)])
         else tilesToFlip)
      else tilesToFlip)"
  by pat_completeness auto
termination
proof (relation "measure (\<lambda>(tiles, p, dir, q, r, tilesToFlip).
          nat (16 - (dq dir * q + dr dir * r + (- dq dir - dr dir) * (- q - r))))")
  show "wf (measure (\<lambda>(tiles, p, dir, q, r, tilesToFlip).
          nat (16 - (dq dir * q + dr dir * r + (- dq dir - dr dir) * (- q - r)))))"
    by simp
next
  fix tiles :: "(hex \<times> player) list" and p :: player and dir :: direction
    and q r :: int and tilesToFlip :: "hex list"
  assume "isValidHex q r"
  then show "((tiles, p, dir, q + dq dir, r + dr dir, tilesToFlip @ [(q, r)]),
              (tiles, p, dir, q, r, tilesToFlip))
             \<in> measure (\<lambda>(tiles, p, dir, q, r, tilesToFlip).
                 nat (16 - (dq dir * q + dr dir * r + (- dq dir - dr dir) * (- q - r))))"
    by (cases dir) (auto simp: isValidHex_def GRID_SIZE_def Let_def)
qed

definition getTilesInStraightLines :: "(hex \<times> player) list \<Rightarrow> int \<Rightarrow> int \<Rightarrow> player \<Rightarrow> hex list" where
  "getTilesInStraightLines tiles startQ startR p =
     fold (\<lambda>dir tilesToFlip. straightLine tiles p dir (startQ + dq dir) (startR + dr dir) tilesToFlip)
          directions []"

subsection \<open>Surround captures\<close>

text \<open>
  \<^verbatim>\<open>getSurroundedFlips\<close>: every surrounded tile of the defender with distance 1, followed by
  the tiles of its straight lines with distance \<^verbatim>\<open>idx + 2\<close>, the index running over the
  whole array \<^verbatim>\<open>linesTiles\<close>.
\<close>

definition getSurroundedFlips :: "(hex \<times> player) list \<Rightarrow> player \<Rightarrow> flip list" where
  "getSurroundedFlips tiles attackingPlayer =
     (let defendingPlayer = opponent attackingPlayer;
          attackerZOC = calculateZOC tiles attackingPlayer;
          defendingTiles = getPlayerTiles tiles defendingPlayer
      in fold (\<lambda>tile flips.
                 if isTileSurrounded (fst tile) (snd tile) attackerZOC then
                   (let linesTiles = getTilesInStraightLines tiles (fst tile) (snd tile) defendingPlayer
                    in (flips @ [(tile, 1)])
                       @ map (\<lambda>(idx, lt). (lt, idx + 2)) (enumerate 0 linesTiles))
                 else flips)
              defendingTiles [])"


subsection \<open>Merging the two capture lists\<close>

text \<open>
  \<^verbatim>\<open>allFlipsMap\<close> of \<^verbatim>\<open>placeTile\<close>: the line captures are entered first, then the surround
  captures; an entry is written only when its key is absent. A surround capture is stored
  with \<^verbatim>\<open>distance: flip.distance || 1\<close>. The result is \<^verbatim>\<open>Array.from(allFlipsMap.values())\<close>.
\<close>

definition mergeFlips :: "flip list \<Rightarrow> flip list \<Rightarrow> flip list" where
  "mergeFlips othelloFlips surroundedFlips =
     (let allFlipsMap0 =
            fold (\<lambda>flip m. if map_of m (fst flip) = None then AList.update (fst flip) flip m else m)
                 othelloFlips [];
          allFlipsMap =
            fold (\<lambda>flip m. if map_of m (fst flip) = None
                            then AList.update (fst flip)
                                   (fst flip, if snd flip = 0 then 1 else snd flip) m
                            else m)
                 surroundedFlips allFlipsMap0
      in map snd allFlipsMap)"

text \<open>
  The capture computation of \<^verbatim>\<open>placeTile\<close> (from \<^verbatim>\<open>getOthelloFlips\<close> to \<^verbatim>\<open>allFlips\<close>),
  on the board that already holds the placed tile.
\<close>

definition placeTileFlips :: "(hex \<times> player) list \<Rightarrow> int \<Rightarrow> int \<Rightarrow> player \<Rightarrow> flip list" where
  "placeTileFlips tiles q r currentPlayer =
     (let othelloFlips = getOthelloFlips tiles q r currentPlayer;
          surroundedFlips = getSurroundedFlips tiles currentPlayer
      in mergeFlips othelloFlips surroundedFlips)"

text \<open>The \<^verbatim>\<open>flipsByDistance\<close> map of \<^verbatim>\<open>animateFlips\<close>.\<close>

definition groupByDistance :: "flip list \<Rightarrow> (nat \<times> flip list) list" where
  "groupByDistance flips =
     fold (\<lambda>flip m. case map_of m (snd flip) of
                       None \<Rightarrow> AList.update (snd flip) [flip] m
                     | Some fs \<Rightarrow> AList.update (snd flip) (fs @ [flip]) m)
          flips []"

subsection \<open>Game state\<close>

text \<open>The three texts \<^verbatim>\<open>showGameOver\<close> can write into the game-over modal.\<close>

datatype outcome = WhiteWins | BlackWins | Tie

text \<open>
  A callback handed to \<^verbatim>\<open>setTimeout\<close> by \<^verbatim>\<open>animateFlips\<close>: one batch of flips with the
  player they flip to, or the final callback that ends the animation.
\<close>

datatype timer = FlipBatch "flip list" player | FinishAnimation

text \<open>
  The fields of the global \<^verbatim>\<open>gameState\<close>, followed by the two pieces of the environment
  the rules write to: the callbacks registered with \<^verbatim>\<open>setTimeout\<close> and not yet run, each
  with its delay in milliseconds, in the order they will run; and the text of the game-over
  modal while it is shown. \<^verbatim>\<open>Date.now()\<close> is an argument of \<open>placeTile\<close>.
\<close>

record gameState =
  currentPlayer :: player
  tiles :: "(hex \<times> player) list"
  whiteTilesRemaining :: int
  blackTilesRemaining :: int
  hoveredHex :: "hex option"
  lastPlacedTile :: "(int \<times> int \<times> player) option"
  lastPlacedTime :: int
  gameOver :: bool
  debugMode :: bool
  animatingFlips :: "flip list"
  isAnimating :: bool
  pendingTimers :: "(nat \<times> timer) list"
  winnerText :: "outcome option"


text \<open>\<^verbatim>\<open>resetGame\<close> keeps the debug mode and hides the modal; it cancels no timer.\<close>

definition resetGame :: "gameState \<Rightarrow> gameState" where
  "resetGame s =
     \<lparr> currentPlayer = WHITE, tiles = [],
       whiteTilesRemaining = TILES_PER_PLAYER, blackTilesRemaining = TILES_PER_PLAYER,
       hoveredHex = None, lastPlacedTile = None, lastPlacedTime = 0,
       gameOver = False, debugMode = debugMode s, animatingFlips = [], isAnimating = False,
       pendingTimers = pendingTimers s, winnerText = None \<rparr>"

definition countTiles :: "gameState \<Rightarrow> nat \<times> nat" where
  "countTiles s =
     fold (\<lambda>e (white, black). if snd e = WHITE then (white + 1, black) else (white, black + 1))
          (tiles s) (0, 0)"

definition showGameOver :: "gameState \<Rightarrow> outcome" where
  "showGameOver s =
     (let scores = countTiles s
      in if fst scores > snd scores then WhiteWins
         else if snd scores > fst scores then BlackWins
         else Tie)"

definition finishTurn :: "gameState \<Rightarrow> gameState" where
  "finishTurn s =
     (if whiteTilesRemaining s = 0 \<and> blackTilesRemaining s = 0 then
        (let s' = s\<lparr>gameOver := True\<rparr> in s'\<lparr>winnerText := Some (showGameOver s')\<rparr>)
      else s\<lparr>currentPlayer := opponent (currentPlayer s)\<rparr>)"

text \<open>
  \<^verbatim>\<open>animateFlips\<close>: the flips are sorted by distance (a stable sort), grouped by distance,
  and one callback per distance is registered with delays 0, 150, 300, ...; the callback
  that ends the animation is registered last with the next delay. The delays increase
  strictly, so the callbacks run in the order of registration.
\<close>

definition animateFlips :: "flip list \<Rightarrow> player \<Rightarrow> gameState \<Rightarrow> gameState" where
  "animateFlips flips newPlayer s =
     (let sorted = sort_key snd flips;
          flipsByDistance = groupByDistance sorted;
          distances = sort (map fst flipsByDistance);
          batches = map (\<lambda>(i, dist).
                          (i * 150,
                           FlipBatch (case map_of flipsByDistance dist of
                                        Some flipsAtDist \<Rightarrow> flipsAtDist | None \<Rightarrow> [])
                                     newPlayer))
                        (enumerate 0 distances);
          delay = length distances * 150
      in s\<lparr>isAnimating := True,
            pendingTimers := pendingTimers s @ batches @ [(delay, FinishAnimation)]\<rparr>)"

fun runTimer :: "timer \<Rightarrow> gameState \<Rightarrow> gameState" where
  "runTimer (FlipBatch flipsAtDist newPlayer) s =
     s\<lparr>tiles := fold (\<lambda>flip m. AList.update (fst flip) newPlayer m) flipsAtDist (tiles s)\<rparr>"
| "runTimer FinishAnimation s = finishTurn (s\<lparr>isAnimating := False\<rparr>)"

text \<open>The event loop runs the callback that is due first.\<close>

definition fire :: "gameState \<Rightarrow> gameState" where
  "fire s =
     (case pendingTimers s of
        [] \<Rightarrow> s
      | t # rest \<Rightarrow> runTimer (snd t) (s\<lparr>pendingTimers := rest\<rparr>))"

text \<open>The whole resolution of a placement: every registered callback has run.\<close>

definition resolve :: "gameState \<Rightarrow> gameState" where
  "resolve s = (fire ^^ length (pendingTimers s)) s"

subsection \<open>Placing a tile\<close>

definition placeTile :: "int \<Rightarrow> int \<Rightarrow> int \<Rightarrow> gameState \<Rightarrow> bool \<times> gameState" where
  "placeTile now q r s =
     (if gameOver s \<or> isAnimating s then (False, s)
      else if \<not> isValidHex q r \<or> map_of (tiles s) (q, r) \<noteq> None then (False, s)
      else if currentPlayer s = WHITE \<and> whiteTilesRemaining s \<le> 0 then (False, s)
      else if currentPlayer s = BLACK \<and> blackTilesRemaining s \<le> 0 then (False, s)
      else
        (let player = currentPlayer s;
             s1 = s\<lparr>tiles := AList.update (q, r) player (tiles s)\<rparr>;
             s2 = (if player = WHITE
                   then s1\<lparr>whiteTilesRemaining := whiteTilesRemaining s1 - 1\<rparr>
                   else s1\<lparr>blackTilesRemaining := blackTilesRemaining s1 - 1\<rparr>);
             s3 = s2\<lparr>lastPlacedTile := Some (q, r, player), lastPlacedTime := now\<rparr>;
             allFlips = placeTileFlips (tiles s3) q r player
         in if length allFlips > 0 then (True, animateFlips allFlips player s3)
            else (True, finishTurn s3)))"


subsection \<open>An example position\<close>

text \<open>
  A position after four placements from the initial state, White to move: White holds
  (3, 0) and (-3, 3), Black holds (1, 0) and (2, 0).
\<close>

definition exampleGame :: gameState where
  "exampleGame =
     \<lparr> currentPlayer = WHITE,
       tiles = [((3, 0), WHITE), ((1, 0), BLACK), ((- 3, 3), WHITE), ((2, 0), BLACK)],
       whiteTilesRemaining = 18, blackTilesRemaining = 18,
       hoveredHex = None, lastPlacedTile = Some (2, 0, BLACK), lastPlacedTime = 4,
       gameOver = False, debugMode = False, animatingFlips = [], isAnimating = False,
       pendingTimers = [], winnerText = None \<rparr>"

text \<open>
  A position before the last placement of a game: Black to move with one tile left, White
  with none; the white tile at (1, 0) lies between the black tile at (2, 0) and the empty
  cell (0, 0).
\<close>

definition lastMoveGame :: gameState where
  "lastMoveGame =
     \<lparr> currentPlayer = BLACK,
       tiles =
         [((1, 0), WHITE), ((2, 0), BLACK), ((0, - 7), WHITE), ((- 7, 7), BLACK), ((1, -
          7), WHITE), ((- 6, 7), BLACK), ((2, - 7), WHITE), ((- 5, 7), BLACK), ((3, - 7),
          WHITE), ((- 4, 7), BLACK), ((4, - 7), WHITE), ((- 3, 7), BLACK), ((5, - 7),
          WHITE), ((- 2, 7), BLACK), ((6, - 7), WHITE), ((- 1, 7), BLACK), ((7, - 7),
          WHITE), ((0, 7), BLACK), ((- 1, - 6), WHITE), ((- 7, 6), BLACK), ((0, - 6),
          WHITE), ((- 6, 6), BLACK), ((1, - 6), WHITE), ((- 5, 6), BLACK), ((2, - 6),
          WHITE), ((- 4, 6), BLACK), ((3, - 6), WHITE), ((- 3, 6), BLACK), ((4, - 6),
          WHITE), ((- 2, 6), BLACK), ((5, - 6), WHITE), ((- 1, 6), BLACK), ((6, - 6),
          WHITE), ((0, 6), BLACK), ((7, - 6), WHITE), ((1, 6), BLACK), ((- 2, - 5),
          WHITE), ((- 7, 5), BLACK), ((- 1, - 5), WHITE)],
       whiteTilesRemaining = 0, blackTilesRemaining = 1,
       hoveredHex = None, lastPlacedTile = Some (- 1, - 5, WHITE), lastPlacedTime = 39,
       gameOver = False, debugMode = False, animatingFlips = [], isAnimating = False,
       pendingTimers = [], winnerText = None \<rparr>"

subsection \<open>The states of a game\<close>


section \<open>Properties\<close>

subsection \<open>Rounding\<close>

lemma js_round_of_int: "js_round (of_int n) = n"
  unfolding js_round_def by linarith

text \<open>
  C8: on a pair of exact integers \<^verbatim>\<open>hexRound\<close> returns the pair unchanged; hence it is
  idempotent on integer inputs; and for any input the returned pair \<open>(q, r)\<close> and the derived
  third component \<open>- q - r\<close> sum to zero.
\<close>

theorem hexRound_integer_pair:
  "hexRound (of_int q) (of_int r) = (q, r)
   \<and> hexRound (of_int (fst (hexRound (of_int q) (of_int r))))
               (of_int (snd (hexRound (of_int q) (of_int r))))
       = hexRound (of_int q) (of_int r)
   \<and> fst (hexRound x y) + snd (hexRound x y) + (- fst (hexRound x y) - snd (hexRound x y)) = 0"
proof -
  have s: "- real_of_int a - real_of_int b = of_int (- a - b)" for a b by simp
  have fixed: "hexRound (of_int a) (of_int b) = (a, b)" for a b
    unfolding hexRound_def Let_def s js_round_of_int by simp
  show ?thesis by (simp add: fixed)
qed

subsection \<open>Surrounded tiles\<close>

lemma surroundedLoop_iff:
  "surroundedLoop hs Z \<longleftrightarrow> (\<forall>h \<in> set hs. \<not> isValidHex (fst h) (snd h) \<or> h \<in> set Z)"
  by (induction hs) auto

text \<open>
  C4: \<^verbatim>\<open>isTileSurrounded(q, r, enemyZOC)\<close> is true exactly when each of the six neighbour
  coordinates is off the board or a member of \<^verbatim>\<open>enemyZOC\<close>; in particular a coordinate all
  of whose neighbours are off the board is surrounded whatever the set is.
\<close>

theorem isTileSurrounded_iff:
  "(isTileSurrounded q r enemyZOC \<longleftrightarrow>
      (\<forall>h \<in> {(q + 1, r), (q + 1, r - 1), (q, r - 1), (q - 1, r), (q - 1, r + 1), (q, r + 1)}.
          \<not> isValidHex (fst h) (snd h) \<or> h \<in> set enemyZOC))
   \<and> ((\<forall>h \<in> {(q + 1, r), (q + 1, r - 1), (q, r - 1), (q - 1, r), (q - 1, r + 1), (q, r + 1)}.
          \<not> isValidHex (fst h) (snd h)) \<longrightarrow> isTileSurrounded q r enemyZOC)"
  unfolding isTileSurrounded_def surroundedLoop_iff getSurroundingHexes_def directions_def
  by simp

theorem isTileSurrounded_iff_witness:
  "isTileSurrounded 7 0 [(7, - 1), (6, 0), (6, 1)] \<and> \<not> isTileSurrounded 7 0 [(7, - 1), (6, 0)]
   \<and> isTileSurrounded 100 100 []"
  using isTileSurrounded_iff [of 7 0 "[(7, - 1), (6, 0), (6, 1)]"]
        isTileSurrounded_iff [of 7 0 "[(7, - 1), (6, 0)]"]
        isTileSurrounded_iff [of 100 100 "[]"]
  by (simp add: isValidHex_def GRID_SIZE_def)

subsection \<open>Zone of control\<close>

lemma set_set_add: "set (set_add xs x) = insert x (set xs)"
  by (auto simp: set_add_def)

lemma distinct_set_add: "distinct xs \<Longrightarrow> distinct (set_add xs x)"
  by (simp add: set_add_def)

lemma zoc_inner_set:
  "set (fold (\<lambda>h z. if isValidHex (fst h) (snd h) then set_add z h else z) hs z)
     = set z \<union> {h \<in> set hs. isValidHex (fst h) (snd h)}"
  by (induction hs arbitrary: z) (auto simp: set_set_add)

lemma zoc_inner_distinct:
  "distinct z \<Longrightarrow>
   distinct (fold (\<lambda>h z. if isValidHex (fst h) (snd h) then set_add z h else z) hs z)"
  by (induction hs arbitrary: z) (auto simp: distinct_set_add)

lemma zoc_inner_fresh:
  "distinct hs \<Longrightarrow> set hs \<inter> set z = {} \<Longrightarrow>
   fold (\<lambda>h z. if isValidHex (fst h) (snd h) then set_add z h else z) hs z
     = z @ filter (\<lambda>h. isValidHex (fst h) (snd h)) hs"
  by (induction hs arbitrary: z) (auto simp: set_add_def)

lemma zoc_outer_set:
  "set (fold (\<lambda>tile zoc.
             fold (\<lambda>h z. if isValidHex (fst h) (snd h) then set_add z h else z)
                  (getZOCHexes (fst tile) (snd tile)) zoc) cs z)
     = set z \<union> {h. isValidHex (fst h) (snd h)
                   \<and> (\<exists>c \<in> set cs. h \<in> set (getZOCHexes (fst c) (snd c)))}"
  by (induction cs arbitrary: z) (auto simp: zoc_inner_set)

lemma zoc_outer_distinct:
  "distinct z \<Longrightarrow>
   distinct (fold (\<lambda>tile zoc.
             fold (\<lambda>h z. if isValidHex (fst h) (snd h) then set_add z h else z)
                  (getZOCHexes (fst tile) (snd tile)) zoc) cs z)"
  by (induction cs arbitrary: z) (auto simp: zoc_inner_distinct)

lemma set_getPlayerTiles: "set (getPlayerTiles ts p) = {c. (c, p) \<in> set ts}"
  by (force simp: getPlayerTiles_def)

lemma set_getZOCHexes:
  "set (getZOCHexes q r)
     = {(q, r), (q + 1, r), (q + 1, r - 1), (q, r - 1), (q - 1, r), (q - 1, r + 1), (q, r + 1)}"
  by (simp add: getZOCHexes_def getSurroundingHexes_def directions_def)

lemma distinct_getZOCHexes: "distinct (getZOCHexes q r)"
  by (simp add: getZOCHexes_def getSurroundingHexes_def directions_def)

lemma set_calculateZOC:
  "set (calculateZOC ts p)
     = {h. isValidHex (fst h) (snd h)
           \<and> (\<exists>c. (c, p) \<in> set ts \<and> h \<in> set (getZOCHexes (fst c) (snd c)))}"
  unfolding calculateZOC_def zoc_outer_set set_getPlayerTiles by auto

lemma calculateZOC_single:
  assumes "getPlayerTiles ts p = [(q, r)]" "isValidHex q r"
  shows "calculateZOC ts p = (q, r) # getNeighbors q r"
  using assms
  by (simp add: calculateZOC_def zoc_inner_fresh distinct_getZOCHexes)
     (simp add: getZOCHexes_def getNeighbors_def getSurroundingHexes_def)

lemma length_getNeighbors_le: "length (getNeighbors q r) \<le> 6"
proof -
  have "length (getNeighbors q r) \<le> length (map (\<lambda>d. (q + dq d, r + dr d)) directions)"
    unfolding getNeighbors_def by (rule length_filter_le)
  then show ?thesis by (simp add: directions_def)
qed

lemma length_filter_full:
  "length (filter P xs) = length xs \<longleftrightarrow> (\<forall>x \<in> set xs. P x)"
proof (induction xs)
  case Nil
  show ?case by simp
next
  case (Cons a xs)
  have "length (filter P xs) \<noteq> Suc (length xs)"
    using length_filter_le[of P xs] by arith
  with Cons show ?case by auto
qed

lemma six_valid:
  "(\<forall>h \<in> set (map (\<lambda>d. (q + dq d, r + dr d)) directions). isValidHex (fst h) (snd h))
    \<longleftrightarrow> \<bar>q\<bar> < 7 \<and> \<bar>r\<bar> < 7 \<and> \<bar>q + r\<bar> < 7"
  unfolding directions_def isValidHex_def GRID_SIZE_def Let_def
  by (simp add: abs_less_iff) presburger

lemma length_getNeighbors_6:
  "length (getNeighbors q r) = 6 \<longleftrightarrow> \<bar>q\<bar> < 7 \<and> \<bar>r\<bar> < 7 \<and> \<bar>q + r\<bar> < 7"
proof -
  have "length (map (\<lambda>d. (q + dq d, r + dr d)) directions) = 6"
    by (simp add: directions_def)
  then have "length (getNeighbors q r) = 6 \<longleftrightarrow>
        (\<forall>h \<in> set (map (\<lambda>d. (q + dq d, r + dr d)) directions). isValidHex (fst h) (snd h))"
    unfolding getNeighbors_def
    using length_filter_full[of "\<lambda>h. isValidHex (fst h) (snd h)"
            "map (\<lambda>d. (q + dq d, r + dr d)) directions"]
    by simp
  then show ?thesis unfolding six_valid .
qed

text \<open>
  C5: the zone of control of a player is the set of valid coordinates in the union, over
  the cells that player occupies, of the cell and its six neighbours; it has no repeated
  member. For a player with exactly one tile, on the board, the zone contains the tile's
  own coordinate and has one member more than the tile has neighbours on the board: at
  most 7, and exactly 7 unless the tile lies on the rim.
\<close>

theorem calculateZOC_is_union:
  "set (calculateZOC ts p)
     = {h. isValidHex (fst h) (snd h)
           \<and> (\<exists>q r. ((q, r), p) \<in> set ts
                 \<and> h \<in> {(q, r), (q + 1, r), (q + 1, r - 1), (q, r - 1),
                          (q - 1, r), (q - 1, r + 1), (q, r + 1)})}
   \<and> distinct (calculateZOC ts p)
   \<and> (getPlayerTiles ts p = [(q0, r0)] \<and> isValidHex q0 r0 \<longrightarrow>
        (q0, r0) \<in> set (calculateZOC ts p)
        \<and> card (set (calculateZOC ts p)) = 1 + length (getNeighbors q0 r0)
        \<and> card (set (calculateZOC ts p)) \<le> 7
        \<and> (card (set (calculateZOC ts p)) = 7 \<longleftrightarrow> \<bar>q0\<bar> < 7 \<and> \<bar>r0\<bar> < 7 \<and> \<bar>q0 + r0\<bar> < 7))"
proof (intro conjI impI)
  show "set (calculateZOC ts p)
     = {h. isValidHex (fst h) (snd h)
           \<and> (\<exists>q r. ((q, r), p) \<in> set ts
                 \<and> h \<in> {(q, r), (q + 1, r), (q + 1, r - 1), (q, r - 1),
                          (q - 1, r), (q - 1, r + 1), (q, r + 1)})}"
    unfolding set_calculateZOC by (auto simp: set_getZOCHexes)
  show d: "distinct (calculateZOC ts p)"
    unfolding calculateZOC_def by (rule zoc_outer_distinct) simp
  assume a: "getPlayerTiles ts p = [(q0, r0)] \<and> isValidHex q0 r0"
  then have eq: "calculateZOC ts p = (q0, r0) # getNeighbors q0 r0"
    by (simp add: calculateZOC_single)
  have c: "card (set (calculateZOC ts p)) = length (calculateZOC ts p)"
    using d by (rule distinct_card)
  show "(q0, r0) \<in> set (calculateZOC ts p)" by (simp add: eq)
  show "card (set (calculateZOC ts p)) = 1 + length (getNeighbors q0 r0)"
    unfolding c by (simp add: eq)
  show "card (set (calculateZOC ts p)) \<le> 7"
    unfolding c using length_getNeighbors_le[of q0 r0] by (simp add: eq)
  show "card (set (calculateZOC ts p)) = 7 \<longleftrightarrow> \<bar>q0\<bar> < 7 \<and> \<bar>r0\<bar> < 7 \<and> \<bar>q0 + r0\<bar> < 7"
    unfolding c using length_getNeighbors_6[of q0 r0] by (simp add: eq)
qed

theorem calculateZOC_is_union_witness:
  "calculateZOC [((0, 0), WHITE), ((3, 3), BLACK)] WHITE
     = [(0, 0), (1, 0), (1, - 1), (0, - 1), (- 1, 0), (- 1, 1), (0, 1)]
   \<and> card (set (calculateZOC [((0, 0), WHITE), ((3, 3), BLACK)] WHITE)) = 7
   \<and> card (set (calculateZOC [((7, 0), BLACK)] BLACK)) = 4"
proof -
  have e: "calculateZOC [((0, 0), WHITE), ((3, 3), BLACK)] WHITE
     = [(0, 0), (1, 0), (1, - 1), (0, - 1), (- 1, 0), (- 1, 1), (0, 1)]"
    by (simp add: calculateZOC_def getPlayerTiles_def getZOCHexes_def getSurroundingHexes_def
        directions_def isValidHex_def GRID_SIZE_def set_add_def)
  have n: "length (getNeighbors 7 0) = 3"
    by (simp add: getNeighbors_def directions_def isValidHex_def GRID_SIZE_def)
  have h1: "getPlayerTiles [((0, 0), WHITE), ((3, 3), BLACK)] WHITE = [(0, 0)] \<and> isValidHex 0 0"
    by (simp add: getPlayerTiles_def isValidHex_def GRID_SIZE_def)
  have h2: "getPlayerTiles [((7, 0), BLACK)] BLACK = [(7, 0)] \<and> isValidHex 7 0"
    by (simp add: getPlayerTiles_def isValidHex_def GRID_SIZE_def)
  have "card (set (calculateZOC [((0, 0), WHITE), ((3, 3), BLACK)] WHITE)) = 7"
    using calculateZOC_is_union [of "[((0, 0), WHITE), ((3, 3), BLACK)]" WHITE 0 0,
      THEN conjunct2, THEN conjunct2, THEN mp, OF h1] by simp
  moreover have "card (set (calculateZOC [((7, 0), BLACK)] BLACK)) = 4"
    using calculateZOC_is_union [of "[((7, 0), BLACK)]" BLACK 7 0,
      THEN conjunct2, THEN conjunct2, THEN mp, OF h2] n by simp
  ultimately show ?thesis using e by simp
qed

subsection \<open>Line capture\<close>

declare othelloLine.simps [simp del] straightLine.simps [simp del]




lemma fold_append_concat:
  "fold (\<lambda>x acc. acc @ f x) xs a = a @ concat (map f xs)"
  by (induction xs arbitrary: a) auto





subsection \<open>Merging captures\<close>

lemma update_absent: "map_of m k = None \<Longrightarrow> AList.update k v m = m @ [(k, v)]"
  by (induction m) (auto split: if_splits)

lemma fold_absent_append:
  "\<exists>ys. fold (\<lambda>x m. if map_of m (fst x) = None then AList.update (fst x) (h x) m else m) xs m
         = m @ ys \<and> set ys \<subseteq> (\<lambda>x. (fst x, h x)) ` set xs"
proof (induction xs arbitrary: m)
  case Nil
  show ?case by simp
next
  case (Cons x xs)
  show ?case
  proof (cases "map_of m (fst x) = None")
    case True
    from Cons[of "m @ [(fst x, h x)]"] obtain ys where
      "fold (\<lambda>x m. if map_of m (fst x) = None then AList.update (fst x) (h x) m else m) xs
           (m @ [(fst x, h x)]) = (m @ [(fst x, h x)]) @ ys"
      "set ys \<subseteq> (\<lambda>x. (fst x, h x)) ` set xs" by blast
    then show ?thesis using True
      by (intro exI[of _ "(fst x, h x) # ys"]) (auto simp: update_absent)
  next
    case False
    from Cons[of m] show ?thesis using False by auto
  qed
qed

lemma fold_absent_map_of:
  "map_of (fold (\<lambda>x m. if map_of m (fst x) = None then AList.update (fst x) (h x) m else m) xs m) k
    = (case map_of m k of Some v \<Rightarrow> Some v | None \<Rightarrow> map_of (map (\<lambda>x. (fst x, h x)) xs) k)"
  by (induction xs arbitrary: m) (auto simp: update_conv' split: option.splits)

lemma fold_absent_distinct:
  "distinct (map fst m) \<Longrightarrow>
   distinct (map fst (fold (\<lambda>x m. if map_of m (fst x) = None then AList.update (fst x) (h x) m else m) xs m))"
  by (induction xs arbitrary: m) (auto simp: distinct_update)

lemma map_of_keyed:
  "\<forall>e \<in> set M. fst (snd e) = fst e \<Longrightarrow> map_of (map snd M) k = map_option snd (map_of M k)"
  by (induction M) auto

lemma map_fst_keyed:
  "\<forall>e \<in> set M. fst (snd e) = fst e \<Longrightarrow> map fst (map snd M) = map fst M"
  by (induction M) auto


lemma map_of_self_keyed: "map_option snd (map_of (map (\<lambda>x. (fst x, x)) xs) k) = map_of xs k"
  by (induction xs) auto

lemma map_of_rekeyed:
  "map_option snd (map_of (map (\<lambda>x. (fst x, (fst x, g (snd x)))) xs) k)
     = map_of (map (\<lambda>x. (fst x, g (snd x))) xs) k"
  by (induction xs) auto

lemma mergeFlips_keyed:
  "\<forall>e \<in> set (fold (\<lambda>flip m. if map_of m (fst flip) = None
                            then AList.update (fst flip) (fst flip, g (snd flip)) m else m) ss
                (fold (\<lambda>flip m. if map_of m (fst flip) = None
                            then AList.update (fst flip) flip m else m) os [])).
      fst (snd e) = fst e"
proof -
  obtain ys where ys: "fold (\<lambda>flip m. if map_of m (fst flip) = None
                            then AList.update (fst flip) flip m else m) os [] = [] @ ys"
      "set ys \<subseteq> (\<lambda>x. (fst x, x)) ` set os"
    using fold_absent_append[of "\<lambda>x. x" os "[]"] by blast
  obtain zs where zs: "fold (\<lambda>flip m. if map_of m (fst flip) = None
                            then AList.update (fst flip) (fst flip, g (snd flip)) m else m) ss ([] @ ys)
        = ([] @ ys) @ zs"
      "set zs \<subseteq> (\<lambda>x. (fst x, (fst x, g (snd x)))) ` set ss"
    using fold_absent_append[of "\<lambda>x. (fst x, g (snd x))" ss "[] @ ys"] by blast
  show ?thesis unfolding ys(1) zs(1) using ys(2) zs(2) by auto
qed

lemma mergeFlips_map_of:
  "map_of (mergeFlips os ss) k
     = (case map_of os k of
          Some d \<Rightarrow> Some d
        | None \<Rightarrow> map_of (map (\<lambda>f. (fst f, if snd f = 0 then 1 else snd f)) ss) k)"
proof -
  note keyed = mergeFlips_keyed[of "\<lambda>d. if d = 0 then 1 else d" ss os]
  have "map_of (mergeFlips os ss) k
        = map_option snd (map_of
            (fold (\<lambda>flip m. if map_of m (fst flip) = None
                            then AList.update (fst flip) (fst flip, if snd flip = 0 then 1 else snd flip) m
                            else m) ss
                (fold (\<lambda>flip m. if map_of m (fst flip) = None
                            then AList.update (fst flip) flip m else m) os [])) k)"
    unfolding mergeFlips_def Let_def by (rule map_of_keyed[OF keyed])
  also have "\<dots> = (case map_of os k of
          Some d \<Rightarrow> Some d
        | None \<Rightarrow> map_of (map (\<lambda>f. (fst f, if snd f = 0 then 1 else snd f)) ss) k)"
    unfolding fold_absent_map_of
    using map_of_self_keyed[of os k]
          map_of_rekeyed[of "\<lambda>d. if d = 0 then 1 else d" ss k]
    by (auto split: option.splits)
  finally show ?thesis .
qed

lemma mergeFlips_distinct: "distinct (map fst (mergeFlips os ss))"
proof -
  note keyed = mergeFlips_keyed[of "\<lambda>d. if d = 0 then 1 else d" ss os]
  show ?thesis
    unfolding mergeFlips_def Let_def map_fst_keyed[OF keyed]
    by (intro fold_absent_distinct) simp
qed

lemma getSurroundedFlips_concat:
  "getSurroundedFlips ts a
     = concat (map (\<lambda>tile.
         if isTileSurrounded (fst tile) (snd tile) (calculateZOC ts a)
         then (tile, 1) # map (\<lambda>(idx, lt). (lt, idx + 2))
                (enumerate 0 (getTilesInStraightLines ts (fst tile) (snd tile) (opponent a)))
         else [])
       (getPlayerTiles ts (opponent a)))"
proof -
  have "(\<lambda>tile flips.
           if isTileSurrounded (fst tile) (snd tile) (calculateZOC ts a)
           then (flips @ [(tile, 1)]) @ map (\<lambda>(idx, lt). (lt, idx + 2))
                  (enumerate 0 (getTilesInStraightLines ts (fst tile) (snd tile) (opponent a)))
           else flips)
        = (\<lambda>tile flips. flips @
            (if isTileSurrounded (fst tile) (snd tile) (calculateZOC ts a)
             then (tile, 1) # map (\<lambda>(idx, lt). (lt, idx + 2))
                    (enumerate 0 (getTilesInStraightLines ts (fst tile) (snd tile) (opponent a)))
             else []))"
    by (intro ext) simp
  then show ?thesis
    unfolding getSurroundedFlips_def Let_def by (simp add: fold_append_concat)
qed

lemma getSurroundedFlips_rank_pos: "f \<in> set (getSurroundedFlips ts a) \<Longrightarrow> snd f \<noteq> 0"
  unfolding getSurroundedFlips_concat by (auto split: if_splits)

lemma getSurroundedFlips_norm:
  "map (\<lambda>f. (fst f, if snd f = 0 then 1 else snd f)) (getSurroundedFlips ts a)
     = getSurroundedFlips ts a"
proof -
  have "map (\<lambda>f. (fst f, if snd f = 0 then 1 else snd f)) (getSurroundedFlips ts a)
        = map (\<lambda>f. f) (getSurroundedFlips ts a)"
    by (rule map_cong) (auto dest: getSurroundedFlips_rank_pos)
  then show ?thesis by simp
qed

text \<open>
  C2: the merged capture list of a placement holds at most one entry per coordinate. The
  entry of a coordinate is the first one recorded for it: the line-capture entry when the
  line-capture rule produced the coordinate, otherwise the first surround-capture entry.
  The coordinates of the merged list are those of the two rules together.
\<close>

theorem placeTileFlips_dedup:
  "distinct (map fst (placeTileFlips ts q r cur))
   \<and> map_of (placeTileFlips ts q r cur) c
       = (case map_of (getOthelloFlips ts q r cur) c of
            Some d \<Rightarrow> Some d
          | None \<Rightarrow> map_of (getSurroundedFlips ts cur) c)
   \<and> fst ` set (placeTileFlips ts q r cur)
       = fst ` set (getOthelloFlips ts q r cur) \<union> fst ` set (getSurroundedFlips ts cur)"
proof -
  have m: "map_of (placeTileFlips ts q r cur) k
       = (case map_of (getOthelloFlips ts q r cur) k of
            Some d \<Rightarrow> Some d
          | None \<Rightarrow> map_of (getSurroundedFlips ts cur) k)" for k
    unfolding placeTileFlips_def Let_def mergeFlips_map_of getSurroundedFlips_norm ..
  have "dom (map_of (placeTileFlips ts q r cur))
       = dom (map_of (getOthelloFlips ts q r cur)) \<union> dom (map_of (getSurroundedFlips ts cur))"
    by (auto simp: m dom_def split: option.splits)
  then have "fst ` set (placeTileFlips ts q r cur)
       = fst ` set (getOthelloFlips ts q r cur) \<union> fst ` set (getSurroundedFlips ts cur)"
    by (simp only: dom_map_of_conv_image_fst)
  moreover have "distinct (map fst (placeTileFlips ts q r cur))"
    unfolding placeTileFlips_def Let_def by (rule mergeFlips_distinct)
  ultimately show ?thesis using m by blast
qed

theorem placeTileFlips_dedup_witness:
  "map_of (getOthelloFlips [((2, 0), BLACK), ((1, 0), BLACK), ((3, 0), WHITE), ((1, - 1), WHITE),
             ((1, 1), WHITE), ((0, 0), WHITE)] 0 0 WHITE) (2, 0) = Some 2
   \<and> map_of (getSurroundedFlips [((2, 0), BLACK), ((1, 0), BLACK), ((3, 0), WHITE), ((1, - 1), WHITE),
             ((1, 1), WHITE), ((0, 0), WHITE)] WHITE) (2, 0) = Some 1
   \<and> map_of (placeTileFlips [((2, 0), BLACK), ((1, 0), BLACK), ((3, 0), WHITE), ((1, - 1), WHITE),
             ((1, 1), WHITE), ((0, 0), WHITE)] 0 0 WHITE) (2, 0) = Some 2
   \<and> distinct (map fst (placeTileFlips [((2, 0), BLACK), ((1, 0), BLACK), ((3, 0), WHITE),
             ((1, - 1), WHITE), ((1, 1), WHITE), ((0, 0), WHITE)] 0 0 WHITE))"
proof -
  have o: "getOthelloFlips [((2, 0), BLACK), ((1, 0), BLACK), ((3, 0), WHITE), ((1, - 1), WHITE),
             ((1, 1), WHITE), ((0, 0), WHITE)] 0 0 WHITE = [((1, 0), 1), ((2, 0), 2)]"
    by code_simp
  have s: "getSurroundedFlips [((2, 0), BLACK), ((1, 0), BLACK), ((3, 0), WHITE), ((1, - 1), WHITE),
             ((1, 1), WHITE), ((0, 0), WHITE)] WHITE
           = [((2, 0), 1), ((1, 0), 2), ((1, 0), 1), ((2, 0), 2)]"
    by code_simp
  show ?thesis
    using placeTileFlips_dedup [of "[((2, 0), BLACK), ((1, 0), BLACK), ((3, 0), WHITE),
             ((1, - 1), WHITE), ((1, 1), WHITE), ((0, 0), WHITE)]" 0 0 WHITE "(2, 0)"]
    unfolding o s by simp
qed

subsection \<open>Ranks of line captures\<close>










subsection \<open>Accepting and rejecting a placement\<close>

lemma placeTile_rejected:
  assumes "gameOver s \<or> isAnimating s \<or> \<not> isValidHex q r \<or> map_of (tiles s) (q, r) \<noteq> None
           \<or> (if currentPlayer s = WHITE then whiteTilesRemaining s else blackTilesRemaining s) \<le> 0"
  shows "placeTile now q r s = (False, s)"
proof (cases "currentPlayer s")
  case WHITE
  with assms show ?thesis unfolding placeTile_def by auto
next
  case BLACK
  with assms show ?thesis unfolding placeTile_def by auto
qed

lemma placeTile_accepted:
  assumes "\<not> gameOver s" "\<not> isAnimating s" "isValidHex q r" "map_of (tiles s) (q, r) = None"
    and "0 < (if currentPlayer s = WHITE then whiteTilesRemaining s else blackTilesRemaining s)"
  shows "placeTile now q r s =
     (True,
      let s3 = s\<lparr>tiles := tiles s @ [((q, r), currentPlayer s)],
                 whiteTilesRemaining :=
                   (if currentPlayer s = WHITE then whiteTilesRemaining s - 1
                    else whiteTilesRemaining s),
                 blackTilesRemaining :=
                   (if currentPlayer s = WHITE then blackTilesRemaining s
                    else blackTilesRemaining s - 1),
                 lastPlacedTile := Some (q, r, currentPlayer s), lastPlacedTime := now\<rparr>;
          allFlips = placeTileFlips (tiles s3) q r (currentPlayer s)
      in if allFlips = [] then finishTurn s3 else animateFlips allFlips (currentPlayer s) s3)"
proof (cases "currentPlayer s")
  case WHITE
  with assms show ?thesis
    unfolding placeTile_def by (simp add: update_absent Let_def)
next
  case BLACK
  with assms show ?thesis
    unfolding placeTile_def by (simp add: update_absent Let_def)
qed

lemma placeTile_fst_iff:
  "fst (placeTile now q r s) \<longleftrightarrow>
     \<not> gameOver s \<and> \<not> isAnimating s \<and> isValidHex q r \<and> map_of (tiles s) (q, r) = None
     \<and> 0 < (if currentPlayer s = WHITE then whiteTilesRemaining s else blackTilesRemaining s)"
proof (cases "\<not> gameOver s \<and> \<not> isAnimating s \<and> isValidHex q r \<and> map_of (tiles s) (q, r) = None
     \<and> 0 < (if currentPlayer s = WHITE then whiteTilesRemaining s else blackTilesRemaining s)")
  case True
  then show ?thesis using placeTile_accepted[of s q r now] by simp
next
  case False
  then have "placeTile now q r s = (False, s)"
    by (intro placeTile_rejected) (auto simp: not_less)
  with False show ?thesis by simp
qed

lemma animateFlips_fields:
  "tiles (animateFlips fl p s) = tiles s"
  "whiteTilesRemaining (animateFlips fl p s) = whiteTilesRemaining s"
  "blackTilesRemaining (animateFlips fl p s) = blackTilesRemaining s"
  "currentPlayer (animateFlips fl p s) = currentPlayer s"
  "gameOver (animateFlips fl p s) = gameOver s"
  "winnerText (animateFlips fl p s) = winnerText s"
  "isAnimating (animateFlips fl p s) = True"
  by (simp_all add: animateFlips_def Let_def)

lemma finishTurn_fields:
  "tiles (finishTurn s) = tiles s"
  "whiteTilesRemaining (finishTurn s) = whiteTilesRemaining s"
  "blackTilesRemaining (finishTurn s) = blackTilesRemaining s"
  "pendingTimers (finishTurn s) = pendingTimers s"
  "isAnimating (finishTurn s) = isAnimating s"
  by (simp_all add: finishTurn_def Let_def)

text \<open>
  C6: \<^verbatim>\<open>placeTile\<close> returns false exactly when the coordinate is invalid, the cell is
  occupied, the supply of the player to move is exhausted, the game is over or an animation
  is running; it then leaves the whole state unchanged. When it returns true the board has
  gained the placed cell for the player to move, and exactly that player's supply is one
  less.
\<close>

theorem placeTile_fails_iff:
  "(\<not> fst (placeTile now q r s) \<longleftrightarrow>
      \<not> isValidHex q r \<or> map_of (tiles s) (q, r) \<noteq> None
      \<or> (if currentPlayer s = WHITE then whiteTilesRemaining s else blackTilesRemaining s) \<le> 0
      \<or> gameOver s \<or> isAnimating s)
   \<and> (\<not> fst (placeTile now q r s) \<longrightarrow> snd (placeTile now q r s) = s)
   \<and> (fst (placeTile now q r s) \<longrightarrow>
        tiles (snd (placeTile now q r s)) = tiles s @ [((q, r), currentPlayer s)]
        \<and> map_of (tiles (snd (placeTile now q r s))) (q, r) = Some (currentPlayer s)
        \<and> (if currentPlayer s = WHITE
            then whiteTilesRemaining (snd (placeTile now q r s)) = whiteTilesRemaining s - 1
               \<and> blackTilesRemaining (snd (placeTile now q r s)) = blackTilesRemaining s
            else blackTilesRemaining (snd (placeTile now q r s)) = blackTilesRemaining s - 1
               \<and> whiteTilesRemaining (snd (placeTile now q r s)) = whiteTilesRemaining s))"
proof (intro conjI impI)
  show "\<not> fst (placeTile now q r s) \<longleftrightarrow>
      \<not> isValidHex q r \<or> map_of (tiles s) (q, r) \<noteq> None
      \<or> (if currentPlayer s = WHITE then whiteTilesRemaining s else blackTilesRemaining s) \<le> 0
      \<or> gameOver s \<or> isAnimating s"
    unfolding placeTile_fst_iff by (auto simp: not_less)
next
  assume "\<not> fst (placeTile now q r s)"
  then have "placeTile now q r s = (False, s)"
    unfolding placeTile_fst_iff by (intro placeTile_rejected) (auto simp: not_less)
  then show "snd (placeTile now q r s) = s" by simp
next
  assume a: "fst (placeTile now q r s)"
  then have c: "\<not> gameOver s" "\<not> isAnimating s" "isValidHex q r" "map_of (tiles s) (q, r) = None"
    "0 < (if currentPlayer s = WHITE then whiteTilesRemaining s else blackTilesRemaining s)"
    unfolding placeTile_fst_iff by blast+
  note e = placeTile_accepted[OF c, of now]
  show t: "tiles (snd (placeTile now q r s)) = tiles s @ [((q, r), currentPlayer s)]"
    unfolding e by (simp add: Let_def animateFlips_fields finishTurn_fields)
  show "map_of (tiles (snd (placeTile now q r s))) (q, r) = Some (currentPlayer s)"
    unfolding t using c(4) by (simp add: map_add_def)
  show "if currentPlayer s = WHITE
            then whiteTilesRemaining (snd (placeTile now q r s)) = whiteTilesRemaining s - 1
               \<and> blackTilesRemaining (snd (placeTile now q r s)) = blackTilesRemaining s
            else blackTilesRemaining (snd (placeTile now q r s)) = blackTilesRemaining s - 1
               \<and> whiteTilesRemaining (snd (placeTile now q r s)) = whiteTilesRemaining s"
    unfolding e by (simp add: Let_def animateFlips_fields finishTurn_fields)
qed

theorem placeTile_fails_iff_witness:
  "fst (placeTile 5 0 0 exampleGame)
   \<and> tiles (snd (placeTile 5 0 0 exampleGame)) = tiles exampleGame @ [((0, 0), WHITE)]
   \<and> whiteTilesRemaining (snd (placeTile 5 0 0 exampleGame)) = 17
   \<and> blackTilesRemaining (snd (placeTile 5 0 0 exampleGame)) = 18
   \<and> \<not> fst (placeTile 5 1 0 exampleGame) \<and> snd (placeTile 5 1 0 exampleGame) = exampleGame
   \<and> \<not> fst (placeTile 5 8 0 exampleGame) \<and> snd (placeTile 5 8 0 exampleGame) = exampleGame"
proof -
  have a: "fst (placeTile 5 0 0 exampleGame)" by code_simp
  have b: "\<not> fst (placeTile 5 1 0 exampleGame)" by code_simp
  have c: "\<not> fst (placeTile 5 8 0 exampleGame)" by code_simp
  have d: "currentPlayer exampleGame = WHITE" "whiteTilesRemaining exampleGame = 18"
     "blackTilesRemaining exampleGame = 18"
    by (simp_all add: exampleGame_def)
  show ?thesis
    using placeTile_fails_iff[of 5 0 0 exampleGame] placeTile_fails_iff[of 5 1 0 exampleGame]
      placeTile_fails_iff[of 5 8 0 exampleGame] a b c d
    by simp
qed

subsection \<open>Running the timers of a placement\<close>

lemma fire_none: "pendingTimers x = [] \<Longrightarrow> fire x = x"
  by (simp add: fire_def)

lemma funpow_fire_none: "pendingTimers x = [] \<Longrightarrow> (fire ^^ n) x = x"
  by (induction n) (simp_all add: fire_none)

lemma fire_batch:
  "pendingTimers x = (d, FlipBatch b p) # rest \<Longrightarrow>
   fire x = x\<lparr>pendingTimers := rest,
              tiles := fold (\<lambda>flip m. AList.update (fst flip) p m) b (tiles x)\<rparr>"
  by (simp add: fire_def)

lemma fire_finish:
  "pendingTimers x = (d, FinishAnimation) # rest \<Longrightarrow>
   fire x = finishTurn (x\<lparr>pendingTimers := rest, isAnimating := False\<rparr>)"
  by (simp add: fire_def)

lemma fire_n_batches:
  assumes "pendingTimers x
             = map (\<lambda>(i, b). (i * 150, FlipBatch b p)) (enumerate k bs) @ [(d, FinishAnimation)]"
    and "n \<le> length bs"
  shows "(fire ^^ n) x
           = x\<lparr>pendingTimers :=
                  map (\<lambda>(i, b). (i * 150, FlipBatch b p)) (enumerate (k + n) (drop n bs))
                  @ [(d, FinishAnimation)],
                tiles := fold (\<lambda>flip m. AList.update (fst flip) p m) (concat (take n bs)) (tiles x)\<rparr>"
  using assms
proof (induction n arbitrary: x k bs)
  case 0
  then show ?case by simp
next
  case (Suc n)
  then obtain b bs' where bs: "bs = b # bs'" by (cases bs) auto
  with Suc.prems have t: "pendingTimers x = (k * 150, FlipBatch b p) #
       (map (\<lambda>(i, b). (i * 150, FlipBatch b p)) (enumerate (Suc k) bs') @ [(d, FinishAnimation)])"
    by simp
  let ?y = "x\<lparr>pendingTimers :=
         map (\<lambda>(i, b). (i * 150, FlipBatch b p)) (enumerate (Suc k) bs') @ [(d, FinishAnimation)],
       tiles := fold (\<lambda>flip m. AList.update (fst flip) p m) b (tiles x)\<rparr>"
  have f: "fire x = ?y" by (rule fire_batch[OF t])
  have "(fire ^^ Suc n) x = (fire ^^ n) (fire x)" by (simp add: funpow_swap1)
  also have "\<dots> = (fire ^^ n) ?y" by (simp only: f)
  also have "\<dots> = ?y\<lparr>pendingTimers :=
                  map (\<lambda>(i, b). (i * 150, FlipBatch b p)) (enumerate (Suc k + n) (drop n bs'))
                  @ [(d, FinishAnimation)],
                tiles := fold (\<lambda>flip m. AList.update (fst flip) p m) (concat (take n bs')) (tiles ?y)\<rparr>"
    using Suc.prems(2) bs by (intro Suc.IH) simp_all
  finally show ?case by (simp add: bs)
qed

lemma fire_all_batches:
  assumes "pendingTimers x
             = map (\<lambda>(i, b). (i * 150, FlipBatch b p)) (enumerate k bs) @ [(d, FinishAnimation)]"
  shows "(fire ^^ Suc (length bs)) x
           = finishTurn (x\<lparr>tiles := fold (\<lambda>flip m. AList.update (fst flip) p m) (concat bs) (tiles x),
                pendingTimers := [], isAnimating := False\<rparr>)"
proof -
  let ?y = "x\<lparr>pendingTimers := [(d, FinishAnimation)],
                tiles := fold (\<lambda>flip m. AList.update (fst flip) p m) (concat bs) (tiles x)\<rparr>"
  have "(fire ^^ length bs) x = ?y"
    using fire_n_batches[OF assms, of "length bs"] by simp
  then have "(fire ^^ Suc (length bs)) x = fire ?y" by simp
  also have "\<dots> = finishTurn (?y\<lparr>pendingTimers := [], isAnimating := False\<rparr>)"
    by (rule fire_finish) simp
  finally show ?thesis by simp
qed

lemma finishTurn_timers: "pendingTimers (finishTurn s) = pendingTimers s"
  by (simp add: finishTurn_def Let_def)

lemma finishTurn_tiles: "tiles (finishTurn s) = tiles s"
  by (simp add: finishTurn_def Let_def)

lemma tiles_fire_n:
  assumes "pendingTimers x
             = map (\<lambda>(i, b). (i * 150, FlipBatch b p)) (enumerate k bs) @ [(d, FinishAnimation)]"
  shows "tiles ((fire ^^ n) x)
           = fold (\<lambda>flip m. AList.update (fst flip) p m) (concat (take n bs)) (tiles x)"
proof (cases "n \<le> length bs")
  case True
  show ?thesis unfolding fire_n_batches[OF assms True] by simp
next
  case False
  then obtain m where n: "n = m + Suc (length bs)"
    by (metis add.commute less_eqE not_less_eq_eq)
  have "(fire ^^ n) x = (fire ^^ m) ((fire ^^ Suc (length bs)) x)"
    unfolding n by (simp only: funpow_add o_apply)
  also have "\<dots> = (fire ^^ Suc (length bs)) x"
    unfolding fire_all_batches[OF assms]
    by (rule funpow_fire_none) (simp add: finishTurn_timers)
  finally show ?thesis
    unfolding fire_all_batches[OF assms] using False by (simp add: finishTurn_tiles)
qed

lemma gameOver_fire_n:
  assumes "pendingTimers x
             = map (\<lambda>(i, b). (i * 150, FlipBatch b p)) (enumerate k bs) @ [(d, FinishAnimation)]"
    and "n \<le> length bs"
  shows "gameOver ((fire ^^ n) x) = gameOver x"
  unfolding fire_n_batches[OF assms] by simp


lemma groupByDistance_step_map_of:
  "map_of (fold (\<lambda>flip m. case map_of m (snd flip) of
                       None \<Rightarrow> AList.update (snd flip) [flip] m
                     | Some fs \<Rightarrow> AList.update (snd flip) (fs @ [flip]) m) xs m) k
     = (case map_of m k of
          None \<Rightarrow> (if filter (\<lambda>x. snd x = k) xs = [] then None
                    else Some (filter (\<lambda>x. snd x = k) xs))
        | Some fs \<Rightarrow> Some (fs @ filter (\<lambda>x. snd x = k) xs))"
proof (induction xs arbitrary: m)
  case Nil
  show ?case by (simp split: option.splits)
next
  case (Cons x xs)
  show ?case
    by (cases "map_of m (snd x)"; cases "snd x = k")
       (simp_all add: Cons update_conv' split: option.splits)
qed

lemma groupByDistance_map_of:
  "map_of (groupByDistance xs) k
     = (if filter (\<lambda>x. snd x = k) xs = [] then None else Some (filter (\<lambda>x. snd x = k) xs))"
  unfolding groupByDistance_def groupByDistance_step_map_of by simp

lemma groupByDistance_keys: "fst ` set (groupByDistance xs) = snd ` set xs"
proof -
  have "dom (map_of (groupByDistance xs)) = snd ` set xs"
    by (auto simp: dom_def groupByDistance_map_of filter_empty_conv)
  then show ?thesis by (simp only: dom_map_of_conv_image_fst)
qed

lemma batch_is_filter:
  "(case map_of (groupByDistance xs) k of Some fs \<Rightarrow> fs | None \<Rightarrow> [])
     = filter (\<lambda>x. snd x = k) xs"
  by (simp add: groupByDistance_map_of)

lemma batches_cover:
  "set (concat (map (\<lambda>k. case map_of (groupByDistance xs) k of Some fs \<Rightarrow> fs | None \<Rightarrow> [])
                    (sort (map fst (groupByDistance xs))))) = set xs"
proof -
  have "set (concat (map (\<lambda>k. filter (\<lambda>x. snd x = k) xs) (sort (map fst (groupByDistance xs)))))
        = (\<Union>k \<in> snd ` set xs. set (filter (\<lambda>x. snd x = k) xs))"
    by (simp add: groupByDistance_keys)
  also have "\<dots> = set xs" by auto
  finally show ?thesis unfolding batch_is_filter .
qed

lemma enumerate_map_batches:
  "map (\<lambda>(i, k). (i * 150, FlipBatch (h k) p)) (enumerate n ks)
     = map (\<lambda>(i, b). (i * 150, FlipBatch b p)) (enumerate n (map h ks))"
  by (induction ks arbitrary: n) simp_all

lemma animateFlips_timers:
  "\<exists>bs. set (concat bs) = set fl
      \<and> animateFlips fl p s
          = s\<lparr>isAnimating := True,
              pendingTimers := pendingTimers s
                @ map (\<lambda>(i, b). (i * 150, FlipBatch b p)) (enumerate 0 bs)
                @ [(length bs * 150, FinishAnimation)]\<rparr>"
proof -
  let ?G = "groupByDistance (sort_key snd fl)"
  let ?bs = "map (\<lambda>k. case map_of ?G k of Some fs \<Rightarrow> fs | None \<Rightarrow> []) (sort (map fst ?G))"
  have "set (concat ?bs) = set fl" unfolding batches_cover by simp
  moreover have "animateFlips fl p s
          = s\<lparr>isAnimating := True,
              pendingTimers := pendingTimers s
                @ map (\<lambda>(i, b). (i * 150, FlipBatch b p)) (enumerate 0 ?bs)
                @ [(length ?bs * 150, FinishAnimation)]\<rparr>"
    unfolding animateFlips_def Let_def
    by (simp add: enumerate_map_batches[symmetric])
  ultimately show ?thesis by blast
qed





lemma placement_resolution:
  assumes acc: "fst (placeTile now q r s)" and quiet: "pendingTimers s = []"
  obtains bs where
    "set (concat bs)
        = set (placeTileFlips (tiles s @ [((q, r), currentPlayer s)]) q r (currentPlayer s))"
    and "\<forall>n. tiles ((fire ^^ n) (snd (placeTile now q r s)))
             = fold (\<lambda>flip m. AList.update (fst flip) (currentPlayer s) m) (concat (take n bs))
                 (tiles s @ [((q, r), currentPlayer s)])"
    and "\<forall>n < length (pendingTimers (snd (placeTile now q r s))).
           \<not> gameOver ((fire ^^ n) (snd (placeTile now q r s)))"
    and "resolve (snd (placeTile now q r s))
        = finishTurn
            (s\<lparr>tiles := fold (\<lambda>flip m. AList.update (fst flip) (currentPlayer s) m) (concat bs)
                         (tiles s @ [((q, r), currentPlayer s)]),
               whiteTilesRemaining :=
                 (if currentPlayer s = WHITE then whiteTilesRemaining s - 1
                  else whiteTilesRemaining s),
               blackTilesRemaining :=
                 (if currentPlayer s = WHITE then blackTilesRemaining s
                  else blackTilesRemaining s - 1),
               lastPlacedTile := Some (q, r, currentPlayer s), lastPlacedTime := now\<rparr>)"
proof -
  let ?cur = "currentPlayer s"
  let ?B = "tiles s @ [((q, r), ?cur)]"
  let ?s3 = "s\<lparr>tiles := ?B,
               whiteTilesRemaining :=
                 (if ?cur = WHITE then whiteTilesRemaining s - 1 else whiteTilesRemaining s),
               blackTilesRemaining :=
                 (if ?cur = WHITE then blackTilesRemaining s else blackTilesRemaining s - 1),
               lastPlacedTile := Some (q, r, ?cur), lastPlacedTime := now\<rparr>"
  let ?F = "placeTileFlips ?B q r ?cur"
  let ?upd = "\<lambda>flip m. AList.update (fst flip) ?cur m"
  from acc have c: "\<not> gameOver s" "\<not> isAnimating s" "isValidHex q r" "map_of (tiles s) (q, r) = None"
    "0 < (if currentPlayer s = WHITE then whiteTilesRemaining s else blackTilesRemaining s)"
    unfolding placeTile_fst_iff by blast+
  have e: "snd (placeTile now q r s) = (if ?F = [] then finishTurn ?s3 else animateFlips ?F ?cur ?s3)"
    unfolding placeTile_accepted[OF c, of now] by (simp add: Let_def)
  show ?thesis
  proof (cases "?F = []")
    case True
    have s': "snd (placeTile now q r s) = finishTurn ?s3" unfolding e using True by simp
    have nt: "pendingTimers (finishTurn ?s3) = []"
      unfolding finishTurn_timers using quiet by simp
    have fn: "(fire ^^ n) (finishTurn ?s3) = finishTurn ?s3" for n
      by (rule funpow_fire_none[OF nt])
    have t1: "set (concat []) = set ?F" using True by simp
    have t2: "\<forall>n. tiles ((fire ^^ n) (snd (placeTile now q r s)))
             = fold ?upd (concat (take n [])) ?B"
      unfolding s' fn by (simp add: finishTurn_tiles)
    have t3: "\<forall>n < length (pendingTimers (snd (placeTile now q r s))).
           \<not> gameOver ((fire ^^ n) (snd (placeTile now q r s)))"
      unfolding s' nt by simp
    have t4: "resolve (snd (placeTile now q r s))
        = finishTurn (s\<lparr>tiles := fold ?upd (concat []) ?B,
               whiteTilesRemaining :=
                 (if ?cur = WHITE then whiteTilesRemaining s - 1 else whiteTilesRemaining s),
               blackTilesRemaining :=
                 (if ?cur = WHITE then blackTilesRemaining s else blackTilesRemaining s - 1),
               lastPlacedTile := Some (q, r, ?cur), lastPlacedTime := now\<rparr>)"
      unfolding s' resolve_def fn by simp
    show ?thesis by (rule that[OF t1 t2 t3 t4])
  next
    case False
    from animateFlips_timers[of ?F ?cur ?s3] obtain bs where
      bs: "set (concat bs) = set ?F"
      and an: "animateFlips ?F ?cur ?s3
          = ?s3\<lparr>isAnimating := True,
              pendingTimers := pendingTimers ?s3
                @ map (\<lambda>(i, b). (i * 150, FlipBatch b ?cur)) (enumerate 0 bs)
                @ [(length bs * 150, FinishAnimation)]\<rparr>"
      by blast
    let ?x = "animateFlips ?F ?cur ?s3"
    have s': "snd (placeTile now q r s) = ?x" unfolding e using False by simp
    have pt: "pendingTimers ?x
        = map (\<lambda>(i, b). (i * 150, FlipBatch b ?cur)) (enumerate 0 bs)
          @ [(length bs * 150, FinishAnimation)]"
      unfolding an using quiet by simp
    have tx: "tiles ?x = ?B" by (simp add: animateFlips_fields)
    have gx: "\<not> gameOver ?x" using c(1) by (simp add: animateFlips_fields)
    have len: "length (pendingTimers ?x) = Suc (length bs)" unfolding pt by simp
    have u2: "\<forall>n. tiles ((fire ^^ n) (snd (placeTile now q r s))) = fold ?upd (concat (take n bs)) ?B"
      unfolding s' tiles_fire_n[OF pt] tx by simp
    have u3: "\<forall>n < length (pendingTimers (snd (placeTile now q r s))).
           \<not> gameOver ((fire ^^ n) (snd (placeTile now q r s)))"
      unfolding s' len using gameOver_fire_n[OF pt] gx by simp
    have u4: "resolve (snd (placeTile now q r s))
        = finishTurn (s\<lparr>tiles := fold ?upd (concat bs) ?B,
               whiteTilesRemaining :=
                 (if ?cur = WHITE then whiteTilesRemaining s - 1 else whiteTilesRemaining s),
               blackTilesRemaining :=
                 (if ?cur = WHITE then blackTilesRemaining s else blackTilesRemaining s - 1),
               lastPlacedTile := Some (q, r, ?cur), lastPlacedTime := now\<rparr>)"
    proof -
      have "resolve ?x = finishTurn (?x\<lparr>tiles := fold ?upd (concat bs) (tiles ?x),
                pendingTimers := [], isAnimating := False\<rparr>)"
        unfolding resolve_def len by (rule fire_all_batches[OF pt])
      also have "?x\<lparr>tiles := fold ?upd (concat bs) (tiles ?x),
                pendingTimers := [], isAnimating := False\<rparr>
          = s\<lparr>tiles := fold ?upd (concat bs) ?B,
               whiteTilesRemaining :=
                 (if ?cur = WHITE then whiteTilesRemaining s - 1 else whiteTilesRemaining s),
               blackTilesRemaining :=
                 (if ?cur = WHITE then blackTilesRemaining s else blackTilesRemaining s - 1),
               lastPlacedTile := Some (q, r, ?cur), lastPlacedTime := now\<rparr>"
        unfolding tx unfolding an using quiet c(2)
        by (intro gameState.equality) simp_all
      finally show ?thesis unfolding s' .
    qed
    show ?thesis by (rule that[OF bs u2 u3 u4])
  qed
qed

subsection \<open>Game over\<close>

lemma countTiles_fold:
  "fold (\<lambda>e (white, black). if snd e = WHITE then (white + 1, black) else (white, black + 1))
        ts (w, b)
     = (w + length (filter (\<lambda>e. snd e = WHITE) ts), b + length (filter (\<lambda>e. snd e = BLACK) ts))"
proof (induction ts arbitrary: w b)
  case Nil
  show ?case by simp
next
  case (Cons e ts)
  show ?case by (cases "snd e") (simp_all add: Cons)
qed

lemma countTiles_eq:
  "countTiles s = (length (filter (\<lambda>e. snd e = WHITE) (tiles s)),
                   length (filter (\<lambda>e. snd e = BLACK) (tiles s)))"
  unfolding countTiles_def countTiles_fold by simp

lemma showGameOver_tiles: "tiles a = tiles b \<Longrightarrow> showGameOver a = showGameOver b"
  by (simp add: showGameOver_def countTiles_def)

lemma finishTurn_gameOver:
  "\<not> gameOver x \<Longrightarrow>
   gameOver (finishTurn x) \<longleftrightarrow> whiteTilesRemaining x = 0 \<and> blackTilesRemaining x = 0"
  by (simp add: finishTurn_def Let_def)

lemma finishTurn_winnerText:
  "gameOver (finishTurn x) \<Longrightarrow> \<not> gameOver x \<Longrightarrow>
   winnerText (finishTurn x) = Some (showGameOver (finishTurn x))"
  by (auto simp: finishTurn_def Let_def showGameOver_def countTiles_def split: if_splits)

lemma finishTurn_currentPlayer:
  "\<not> gameOver (finishTurn x) \<Longrightarrow> currentPlayer (finishTurn x) = opponent (currentPlayer x)"
  by (auto simp: finishTurn_def Let_def split: if_splits)

text \<open>
  C7: for an accepted placement the game is over after the resolution exactly when both
  supply counters are then zero, and it is not over at any earlier moment of the
  resolution; when it is over the modal shows the outcome of \<^verbatim>\<open>showGameOver\<close>, otherwise
  the turn passes to the other player. Once the game is over every placement is rejected.
  The outcome is a win for the player with strictly more tiles on the board, otherwise a
  tie.
\<close>

theorem game_over_rule:
  "(fst (placeTile now q r s) \<and> pendingTimers s = [] \<longrightarrow>
      (gameOver (resolve (snd (placeTile now q r s))) \<longleftrightarrow>
         whiteTilesRemaining (resolve (snd (placeTile now q r s))) = 0
         \<and> blackTilesRemaining (resolve (snd (placeTile now q r s))) = 0)
      \<and> (\<forall>n < length (pendingTimers (snd (placeTile now q r s))).
            \<not> gameOver ((fire ^^ n) (snd (placeTile now q r s))))
      \<and> (gameOver (resolve (snd (placeTile now q r s))) \<longrightarrow>
            winnerText (resolve (snd (placeTile now q r s)))
              = Some (showGameOver (resolve (snd (placeTile now q r s)))))
      \<and> (\<not> gameOver (resolve (snd (placeTile now q r s))) \<longrightarrow>
            currentPlayer (resolve (snd (placeTile now q r s))) = opponent (currentPlayer s)))
   \<and> (gameOver s \<longrightarrow> placeTile now q r s = (False, s))
   \<and> showGameOver s
       = (if length (filter (\<lambda>e. snd e = WHITE) (tiles s))
              > length (filter (\<lambda>e. snd e = BLACK) (tiles s)) then WhiteWins
          else if length (filter (\<lambda>e. snd e = BLACK) (tiles s))
              > length (filter (\<lambda>e. snd e = WHITE) (tiles s)) then BlackWins
          else Tie)"
proof (intro conjI)
  show "gameOver s \<longrightarrow> placeTile now q r s = (False, s)"
    by (intro impI placeTile_rejected) simp
  show "showGameOver s
       = (if length (filter (\<lambda>e. snd e = WHITE) (tiles s))
              > length (filter (\<lambda>e. snd e = BLACK) (tiles s)) then WhiteWins
          else if length (filter (\<lambda>e. snd e = BLACK) (tiles s))
              > length (filter (\<lambda>e. snd e = WHITE) (tiles s)) then BlackWins
          else Tie)"
    unfolding showGameOver_def countTiles_eq by (simp add: Let_def)
next
  show "fst (placeTile now q r s) \<and> pendingTimers s = [] \<longrightarrow>
      (gameOver (resolve (snd (placeTile now q r s))) \<longleftrightarrow>
         whiteTilesRemaining (resolve (snd (placeTile now q r s))) = 0
         \<and> blackTilesRemaining (resolve (snd (placeTile now q r s))) = 0)
      \<and> (\<forall>n < length (pendingTimers (snd (placeTile now q r s))).
            \<not> gameOver ((fire ^^ n) (snd (placeTile now q r s))))
      \<and> (gameOver (resolve (snd (placeTile now q r s))) \<longrightarrow>
            winnerText (resolve (snd (placeTile now q r s)))
              = Some (showGameOver (resolve (snd (placeTile now q r s)))))
      \<and> (\<not> gameOver (resolve (snd (placeTile now q r s))) \<longrightarrow>
            currentPlayer (resolve (snd (placeTile now q r s))) = opponent (currentPlayer s))"
  proof (intro impI)
    assume a: "fst (placeTile now q r s) \<and> pendingTimers s = []"
    then have acc: "fst (placeTile now q r s)" and quiet: "pendingTimers s = []" by blast+
    from acc have ng: "\<not> gameOver s" unfolding placeTile_fst_iff by blast
    show "(gameOver (resolve (snd (placeTile now q r s))) \<longleftrightarrow>
         whiteTilesRemaining (resolve (snd (placeTile now q r s))) = 0
         \<and> blackTilesRemaining (resolve (snd (placeTile now q r s))) = 0)
      \<and> (\<forall>n < length (pendingTimers (snd (placeTile now q r s))).
            \<not> gameOver ((fire ^^ n) (snd (placeTile now q r s))))
      \<and> (gameOver (resolve (snd (placeTile now q r s))) \<longrightarrow>
            winnerText (resolve (snd (placeTile now q r s)))
              = Some (showGameOver (resolve (snd (placeTile now q r s)))))
      \<and> (\<not> gameOver (resolve (snd (placeTile now q r s))) \<longrightarrow>
            currentPlayer (resolve (snd (placeTile now q r s))) = opponent (currentPlayer s))"
    proof (cases rule: placement_resolution[OF acc quiet])
      case (1 bs)
      let ?x = "s\<lparr>tiles := fold (\<lambda>flip m. AList.update (fst flip) (currentPlayer s) m) (concat bs)
                         (tiles s @ [((q, r), currentPlayer s)]),
               whiteTilesRemaining :=
                 (if currentPlayer s = WHITE then whiteTilesRemaining s - 1
                  else whiteTilesRemaining s),
               blackTilesRemaining :=
                 (if currentPlayer s = WHITE then blackTilesRemaining s
                  else blackTilesRemaining s - 1),
               lastPlacedTile := Some (q, r, currentPlayer s), lastPlacedTime := now\<rparr>"
      note res = 1(4)
      have ngx: "\<not> gameOver ?x" using ng by simp
      have cx: "currentPlayer ?x = currentPlayer s" by simp
      have g1: "gameOver (resolve (snd (placeTile now q r s))) \<longleftrightarrow>
         whiteTilesRemaining (resolve (snd (placeTile now q r s))) = 0
         \<and> blackTilesRemaining (resolve (snd (placeTile now q r s))) = 0"
        unfolding res finishTurn_gameOver[OF ngx] finishTurn_fields ..
      have g3: "gameOver (resolve (snd (placeTile now q r s))) \<longrightarrow>
            winnerText (resolve (snd (placeTile now q r s)))
              = Some (showGameOver (resolve (snd (placeTile now q r s))))"
        unfolding res using finishTurn_winnerText[OF _ ngx] by blast
      have g4: "\<not> gameOver (resolve (snd (placeTile now q r s))) \<longrightarrow>
            currentPlayer (resolve (snd (placeTile now q r s))) = opponent (currentPlayer s)"
        unfolding res using finishTurn_currentPlayer[of ?x] unfolding cx by blast
      from g1 1(3) g3 g4 show ?thesis by blast
    qed
  qed
qed

theorem game_over_rule_witness:
  "gameOver (resolve (snd (placeTile 40 0 0 lastMoveGame)))
   \<and> whiteTilesRemaining (resolve (snd (placeTile 40 0 0 lastMoveGame))) = 0
   \<and> blackTilesRemaining (resolve (snd (placeTile 40 0 0 lastMoveGame))) = 0
   \<and> winnerText (resolve (snd (placeTile 40 0 0 lastMoveGame))) = Some BlackWins
   \<and> \<not> gameOver (snd (placeTile 40 0 0 lastMoveGame))
   \<and> \<not> gameOver (resolve (snd (placeTile 5 0 0 exampleGame)))
   \<and> currentPlayer (resolve (snd (placeTile 5 0 0 exampleGame))) = BLACK
   \<and> placeTile 41 3 3 (resolve (snd (placeTile 40 0 0 lastMoveGame)))
       = (False, resolve (snd (placeTile 40 0 0 lastMoveGame)))"
proof -
  have a: "fst (placeTile 40 0 0 lastMoveGame) \<and> pendingTimers lastMoveGame = []" by code_simp
  have b: "fst (placeTile 5 0 0 exampleGame) \<and> pendingTimers exampleGame = []" by code_simp
  have w: "whiteTilesRemaining (resolve (snd (placeTile 40 0 0 lastMoveGame))) = 0"
          "blackTilesRemaining (resolve (snd (placeTile 40 0 0 lastMoveGame))) = 0"
    by code_simp+
  have o: "showGameOver (resolve (snd (placeTile 40 0 0 lastMoveGame))) = BlackWins" by code_simp
  have l: "0 < length (pendingTimers (snd (placeTile 40 0 0 lastMoveGame)))" by code_simp
  have e: "blackTilesRemaining (resolve (snd (placeTile 5 0 0 exampleGame))) = 18"
          "currentPlayer exampleGame = WHITE"
    by code_simp+
  note t1 = game_over_rule[of 40 0 0 lastMoveGame, THEN conjunct1, THEN mp, OF a]
  note t2 = game_over_rule[of 5 0 0 exampleGame, THEN conjunct1, THEN mp, OF b]
  note t3 = game_over_rule[of 41 3 3 "resolve (snd (placeTile 40 0 0 lastMoveGame))",
                THEN conjunct2, THEN conjunct1]
  from t1 w have g: "gameOver (resolve (snd (placeTile 40 0 0 lastMoveGame)))" by blast
  from t1 g o have wt: "winnerText (resolve (snd (placeTile 40 0 0 lastMoveGame))) = Some BlackWins"
    by simp
  from t1 l have n0: "\<not> gameOver ((fire ^^ 0) (snd (placeTile 40 0 0 lastMoveGame)))" by blast
  from t2 e(1) have g2: "\<not> gameOver (resolve (snd (placeTile 5 0 0 exampleGame)))" by simp
  with t2 e(2) have c2: "currentPlayer (resolve (snd (placeTile 5 0 0 exampleGame))) = BLACK"
    by (simp add: opponent_def)
  from t3 g have "placeTile 41 3 3 (resolve (snd (placeTile 40 0 0 lastMoveGame)))
       = (False, resolve (snd (placeTile 40 0 0 lastMoveGame)))" by blast
  with g w wt n0 g2 c2 show ?thesis by simp
qed

subsection \<open>What a placement changes\<close>













subsection \<open>Tiles on the board and tiles in supply\<close>









subsection \<open>Resetting while an animation runs\<close>

text \<open>
  \<^verbatim>\<open>resetGame\<close> replaces the state and cancels no timer. The callbacks of a running
  animation read the global \<^verbatim>\<open>gameState\<close> when they run, so they write their flips into the
  new, empty board and then pass the turn: after a reset during the animation of the
  capturing placement in the example position the new game holds two white tiles, both
  supplies are full and Black is to move. The states of \<open>reachable\<close> do not include this
  interleaving.
\<close>

theorem resetGame_keeps_timers:
  "pendingTimers (resetGame s) = pendingTimers s
   \<and> tiles (resolve (resetGame (snd (placeTile 5 0 0 exampleGame))))
       = [((1, 0), WHITE), ((2, 0), WHITE)]
   \<and> whiteTilesRemaining (resolve (resetGame (snd (placeTile 5 0 0 exampleGame)))) = 20
   \<and> blackTilesRemaining (resolve (resetGame (snd (placeTile 5 0 0 exampleGame)))) = 20
   \<and> currentPlayer (resolve (resetGame (snd (placeTile 5 0 0 exampleGame)))) = BLACK"
proof -
  have "pendingTimers (resetGame s) = pendingTimers s" by (simp add: resetGame_def)
  moreover have "tiles (resolve (resetGame (snd (placeTile 5 0 0 exampleGame))))
       = [((1, 0), WHITE), ((2, 0), WHITE)]" by code_simp
  moreover have "whiteTilesRemaining (resolve (resetGame (snd (placeTile 5 0 0 exampleGame)))) = 20"
    by code_simp
  moreover have "blackTilesRemaining (resolve (resetGame (snd (placeTile 5 0 0 exampleGame)))) = 20"
    by code_simp
  moreover have "currentPlayer (resolve (resetGame (snd (placeTile 5 0 0 exampleGame)))) = BLACK"
    by code_simp
  ultimately show ?thesis by blast
qed

end
